theory Spec2Isabelle
  imports Complex_Main "HOL-Library.Sublist"
begin

section \<open>Hausdorff distance of the JIT activity notebook (04\_jit/04\_actividad.ipynb)\<close>

text \<open>
  The notebook defines three functions, \<^verbatim>\<open>metric\<close>, \<^verbatim>\<open>inf_dist\<close> and
  \<^verbatim>\<open>hausdorff\<close>, on NumPy arrays of \<^verbatim>\<open>float64\<close>. The embedding below is over the
  idealised real-number model the specification speaks of: a \<^verbatim>\<open>float64\<close> coordinate
  is a \<^typ>\<open>real\<close>, and the only non-real value the code ever produces is
  \<^verbatim>\<open>np.inf\<close>, the initial value of the running minimum. Rounding is not modelled.

  The notebook repeats the three functions under a \<^verbatim>\<open>numba.jit\<close> decorator, with
  the same statements. What the decorator adds, native \<^verbatim>\<open>float64\<close> evaluation and
  the type check of its signature, lies outside this model, so only the plain Python
  functions are embedded.
\<close>

subsection \<open>Values and errors\<close>

text \<open>
  A scalar of the computation: a real number or \<^verbatim>\<open>np.inf\<close>.
\<close>

datatype float64 = Fin real | PInf

text \<open>
  The errors the specification names. \<open>DimensionMismatch\<close> is what the code does
  raise: NumPy's \<^verbatim>\<open>ValueError: operands could not be broadcast together\<close>, from
  \<^verbatim>\<open>x-y\<close>. \<open>EmptySet\<close> is the specification's error for an empty point set;
  no statement of the source raises it.
\<close>

datatype error = DimensionMismatch | EmptySet

text \<open>The comparison \<^verbatim>\<open>a < b\<close> of two scalars (\<^verbatim>\<open>a > b\<close> is \<^verbatim>\<open>b < a\<close>).\<close>

fun flt_less :: "float64 \<Rightarrow> float64 \<Rightarrow> bool" where
  "flt_less (Fin a) (Fin b) = (a < b)"
| "flt_less (Fin a) PInf = True"
| "flt_less PInf b = False"

text \<open>
  Python's builtin \<^verbatim>\<open>max(a, b)\<close>: the first argument, unless the second is
  strictly greater.
\<close>

definition py_max :: "float64 \<Rightarrow> float64 \<Rightarrow> float64" where
  "py_max a b = (if flt_less a b then b else a)"

subsection \<open>The NumPy operations the code calls, on one-dimensional arrays\<close>

text \<open>
  \<^verbatim>\<open>x - y\<close> on two one-dimensional arrays follows NumPy's broadcasting rule: the
  shapes \<open>(p,)\<close> and \<open>(q,)\<close> are compatible when \<open>p = q\<close> or one of them is 1, and
  an axis of length 1 is stretched to the other length. Any other pair of shapes
  raises the \<^verbatim>\<open>ValueError\<close>. The result is a new array.
\<close>

definition np_subtract :: "real list \<Rightarrow> real list \<Rightarrow> error + real list" where
  "np_subtract x y =
     (if length x = length y then Inr (map2 (\<lambda>a b. a - b) x y)
      else if length x = 1 then Inr (map (\<lambda>b. hd x - b) y)
      else if length y = 1 then Inr (map (\<lambda>a. a - hd y) x)
      else Inl DimensionMismatch)"

text \<open>\<^verbatim>\<open>ret *= ret\<close>: every element multiplied by itself.\<close>

definition np_imul_self :: "real list \<Rightarrow> real list" where
  "np_imul_self ret = map (\<lambda>a. a * a) ret"

text \<open>\<^verbatim>\<open>np.sqrt(ret)\<close>, elementwise, and \<^verbatim>\<open>.sum()\<close>.\<close>

definition np_sqrt :: "real list \<Rightarrow> real list" where
  "np_sqrt ret = map sqrt ret"

definition np_sum :: "real list \<Rightarrow> real" where
  "np_sum ret = sum_list ret"

subsection \<open>The plain Python functions\<close>

text \<open>
  \<^verbatim>\<open>
  def metric_python(x, y):
      """
      standard Euclidean distance
      """
      ret = x-y
      ret *= ret
      return np.sqrt(ret).sum()
  \<close>
\<close>

definition metric_python :: "real list \<Rightarrow> real list \<Rightarrow> error + real" where
  "metric_python x y =
     (case np_subtract x y of
        Inl e \<Rightarrow> Inl e
      | Inr ret \<Rightarrow> Inr (np_sum (np_sqrt (np_imul_self ret))))"

text \<open>
  \<^verbatim>\<open>
  def inf_dist_python(x, Y):
      m = Y.shape[0]
      inf = np.inf
      for i in range(m):
          dist = metric_python(x, Y[i])
          if dist < inf:
              inf = dist
      return inf
  \<close>
  A point set is the list of its rows, so \<^verbatim>\<open>Y.shape[0]\<close> is its length and the
  loop over \<^verbatim>\<open>range(m)\<close> visits the rows in order. The loop is the recursion
  \<open>inf_dist_python_loop\<close>, whose last argument \<open>inf'\<close> is the variable \<^verbatim>\<open>inf\<close> (\<open>dist'\<close> is \<^verbatim>\<open>dist\<close>).
\<close>

fun inf_dist_python_loop :: "real list \<Rightarrow> real list list \<Rightarrow> float64 \<Rightarrow> error + float64" where
  "inf_dist_python_loop x [] inf' = Inr inf'"
| "inf_dist_python_loop x (Yi # Ys) inf' =
     (case metric_python x Yi of
        Inl e \<Rightarrow> Inl e
      | Inr dist' \<Rightarrow>
          inf_dist_python_loop x Ys (if flt_less (Fin dist') inf' then Fin dist' else inf'))"

definition inf_dist_python :: "real list \<Rightarrow> real list list \<Rightarrow> error + float64" where
  "inf_dist_python x Y = inf_dist_python_loop x Y PInf"

text \<open>
  \<^verbatim>\<open>
  def hausdorff_python(X, Y):
      m = X.shape[0]
      n = Y.shape[0]
      sup1 = -1.
      sup2 = -1.
      for i in range(m):
          inf1 = inf_dist_python(X[i], Y)
          if inf1 > sup1:
              sup1 = inf1
      for i in range(n):
          inf2 = inf_dist_python(Y[i], X)
          if inf2 > sup2:
              sup2 = inf2
      return max(sup1, sup2)
  \<close>
  The two loops have the same body with the roles of the two arrays exchanged:
  \<open>hausdorff_python_loop A B sup'\<close> runs over the rows of \<open>A\<close> against the whole
  of \<open>B\<close>, with the running supremum \<open>sup'\<close> (\<^verbatim>\<open>sup1\<close>, then \<^verbatim>\<open>sup2\<close>).
\<close>

fun hausdorff_python_loop :: "real list list \<Rightarrow> real list list \<Rightarrow> float64 \<Rightarrow> error + float64" where
  "hausdorff_python_loop [] B sup' = Inr sup'"
| "hausdorff_python_loop (Ai # As) B sup' =
     (case inf_dist_python Ai B of
        Inl e \<Rightarrow> Inl e
      | Inr inf1 \<Rightarrow> hausdorff_python_loop As B (if flt_less sup' inf1 then inf1 else sup'))"

definition hausdorff_python :: "real list list \<Rightarrow> real list list \<Rightarrow> error + float64" where
  "hausdorff_python X Y =
     (case hausdorff_python_loop X Y (Fin (- 1)) of
        Inl e \<Rightarrow> Inl e
      | Inr sup1 \<Rightarrow>
          (case hausdorff_python_loop Y X (Fin (- 1)) of
             Inl e \<Rightarrow> Inl e
           | Inr sup2 \<Rightarrow> Inr (py_max sup1 sup2)))"

subsection \<open>The same functions on arrays in memory\<close>

text \<open>
  The functions above pass array contents by value. To say what a call does to the
  caller's arrays, the arrays are placed in a memory of buffers: buffer number \<open>n\<close>
  is \<open>mem ! n\<close>, and a new array takes the next free number. A one-dimensional array
  is a window on a buffer; a two-dimensional array of shape \<open>(nrows, ncols)\<close> lies
  row after row in its buffer, and \<^verbatim>\<open>X[i]\<close> is a view: a window on the buffer of
  \<open>X\<close> itself, not a copy.
\<close>

type_synonym memory = "real list list"

record ndarray1 =
  base :: nat
  start :: nat
  size1 :: nat

record ndarray2 =
  base2 :: nat
  nrows :: nat
  ncols :: nat

definition read_array :: "memory \<Rightarrow> ndarray1 \<Rightarrow> real list" where
  "read_array mem v = take (size1 v) (drop (start v) (mem ! base v))"

definition write_array :: "memory \<Rightarrow> ndarray1 \<Rightarrow> real list \<Rightarrow> memory" where
  "write_array mem v xs =
     mem[base v := take (start v) (mem ! base v) @ xs @ drop (start v + size1 v) (mem ! base v)]"

definition new_array :: "memory \<Rightarrow> real list \<Rightarrow> memory \<times> ndarray1" where
  "new_array mem xs = (mem @ [xs], \<lparr>base = length mem, start = 0, size1 = length xs\<rparr>)"

text \<open>\<^verbatim>\<open>X[i]\<close> and the contents of \<open>X\<close> as the list of its rows.\<close>

definition row_view :: "ndarray2 \<Rightarrow> nat \<Rightarrow> ndarray1" where
  "row_view X i = \<lparr>base = base2 X, start = i * ncols X, size1 = ncols X\<rparr>"

definition rows_of :: "memory \<Rightarrow> ndarray2 \<Rightarrow> real list list" where
  "rows_of mem X = map (\<lambda>i. read_array mem (row_view X i)) [0..<nrows X]"

text \<open>
  The NumPy operations on memory. \<^verbatim>\<open>x - y\<close> and \<^verbatim>\<open>np.sqrt(ret)\<close> return new
  arrays; \<^verbatim>\<open>ret *= ret\<close> is the in-place \<^verbatim>\<open>ret.__imul__(ret)\<close>, which writes
  the products into the memory of \<open>ret\<close>; \<^verbatim>\<open>.sum()\<close> only reads. A raised
  exception leaves the memory as it is at that moment, so every function returns the
  memory together with its error or value.
\<close>

definition st_subtract :: "memory \<Rightarrow> ndarray1 \<Rightarrow> ndarray1 \<Rightarrow> memory \<times> (error + ndarray1)" where
  "st_subtract mem x y =
     (case np_subtract (read_array mem x) (read_array mem y) of
        Inl e \<Rightarrow> (mem, Inl e)
      | Inr d \<Rightarrow> (case new_array mem d of (mem', ret) \<Rightarrow> (mem', Inr ret)))"

definition st_imul :: "memory \<Rightarrow> ndarray1 \<Rightarrow> ndarray1 \<Rightarrow> memory" where
  "st_imul mem r s =
     write_array mem r (map2 (\<lambda>a b. a * b) (read_array mem r) (read_array mem s))"

definition st_sqrt :: "memory \<Rightarrow> ndarray1 \<Rightarrow> memory \<times> ndarray1" where
  "st_sqrt mem r = new_array mem (np_sqrt (read_array mem r))"

definition st_sum :: "memory \<Rightarrow> ndarray1 \<Rightarrow> real" where
  "st_sum mem r = np_sum (read_array mem r)"

definition metric_python_st :: "memory \<Rightarrow> ndarray1 \<Rightarrow> ndarray1 \<Rightarrow> memory \<times> (error + real)" where
  "metric_python_st mem x y =
     (case st_subtract mem x y of
        (mem1, Inl e) \<Rightarrow> (mem1, Inl e)
      | (mem1, Inr ret) \<Rightarrow>
          (let mem2 = st_imul mem1 ret ret in
           case st_sqrt mem2 ret of (mem3, s) \<Rightarrow> (mem3, Inr (st_sum mem3 s))))"

text \<open>The loop over \<^verbatim>\<open>range(m)\<close>, with the row indices still to visit.\<close>

fun inf_dist_python_st_loop ::
  "memory \<Rightarrow> ndarray1 \<Rightarrow> ndarray2 \<Rightarrow> nat list \<Rightarrow> float64 \<Rightarrow> memory \<times> (error + float64)" where
  "inf_dist_python_st_loop mem x Y [] inf' = (mem, Inr inf')"
| "inf_dist_python_st_loop mem x Y (i # is) inf' =
     (case metric_python_st mem x (row_view Y i) of
        (mem', Inl e) \<Rightarrow> (mem', Inl e)
      | (mem', Inr dist') \<Rightarrow>
          inf_dist_python_st_loop mem' x Y is
            (if flt_less (Fin dist') inf' then Fin dist' else inf'))"

definition inf_dist_python_st :: "memory \<Rightarrow> ndarray1 \<Rightarrow> ndarray2 \<Rightarrow> memory \<times> (error + float64)" where
  "inf_dist_python_st mem x Y = inf_dist_python_st_loop mem x Y [0..<nrows Y] PInf"

fun hausdorff_python_st_loop ::
  "memory \<Rightarrow> ndarray2 \<Rightarrow> ndarray2 \<Rightarrow> nat list \<Rightarrow> float64 \<Rightarrow> memory \<times> (error + float64)" where
  "hausdorff_python_st_loop mem A B [] sup' = (mem, Inr sup')"
| "hausdorff_python_st_loop mem A B (i # is) sup' =
     (case inf_dist_python_st mem (row_view A i) B of
        (mem', Inl e) \<Rightarrow> (mem', Inl e)
      | (mem', Inr inf1) \<Rightarrow>
          hausdorff_python_st_loop mem' A B is (if flt_less sup' inf1 then inf1 else sup'))"

definition hausdorff_python_st :: "memory \<Rightarrow> ndarray2 \<Rightarrow> ndarray2 \<Rightarrow> memory \<times> (error + float64)" where
  "hausdorff_python_st mem X Y =
     (case hausdorff_python_st_loop mem X Y [0..<nrows X] (Fin (- 1)) of
        (mem1, Inl e) \<Rightarrow> (mem1, Inl e)
      | (mem1, Inr sup1) \<Rightarrow>
          (case hausdorff_python_st_loop mem1 Y X [0..<nrows Y] (Fin (- 1)) of
             (mem2, Inl e) \<Rightarrow> (mem2, Inl e)
           | (mem2, Inr sup2) \<Rightarrow> (mem2, Inr (py_max sup1 sup2))))"

subsection \<open>Notions used to state the properties\<close>

text \<open>
  The contract of section 4.1 of the specification, in its words: the square root of
  the sum of the squared coordinate differences.
\<close>

definition euclidean_spec :: "real list \<Rightarrow> real list \<Rightarrow> real" where
  "euclidean_spec x y = sqrt (\<Sum>(a, b)\<leftarrow>zip x y. (a - b)\<^sup>2)"

text \<open>
  The number \<open>metric_python x y\<close> returns (0 stands in where it raises), the minimum
  of these numbers over the rows of \<open>Y\<close>, and the supremum that one loop of
  \<open>hausdorff_python\<close> computes, starting from \<^verbatim>\<open>-1.\<close>.
\<close>

definition metric_value :: "real list \<Rightarrow> real list \<Rightarrow> real" where
  "metric_value x y = (case metric_python x y of Inl e \<Rightarrow> 0 | Inr d \<Rightarrow> d)"

definition inf_value :: "real list \<Rightarrow> real list list \<Rightarrow> real" where
  "inf_value x Y = Min (metric_value x ` set Y)"

definition sup_value :: "real list list \<Rightarrow> real list list \<Rightarrow> real" where
  "sup_value A B = Max (insert (- 1) ((\<lambda>a. inf_value a B) ` set A))"

section \<open>Properties\<close>

subsection \<open>Scalars and the metric\<close>

lemma np_sqrt_imul_self: "np_sqrt (np_imul_self ret) = map abs ret"
  by (simp add: np_sqrt_def np_imul_self_def)

lemma metric_python_eq_length:
  "length x = length y \<Longrightarrow> metric_python x y = Inr (\<Sum>(a, b)\<leftarrow>zip x y. \<bar>a - b\<bar>)"
  by (simp add: metric_python_def np_subtract_def np_sqrt_imul_self np_sum_def
      comp_def case_prod_unfold)

lemma sum_list_abs_nonneg: "0 \<le> sum_list (map abs (r :: real list))"
  by (induction r) auto

lemma metric_python_nonneg: "metric_python x y = Inr d \<Longrightarrow> 0 \<le> d"
  by (auto simp: metric_python_def np_sqrt_imul_self np_sum_def sum_list_abs_nonneg
      split: sum.splits)

lemma metric_python_self: "metric_python x x = Inr 0"
  by (induction x) (simp_all add: metric_python_eq_length)

subsection \<open>The scan for the minimum\<close>

lemma Min_insert_insert:
  fixes a d :: real
  assumes "finite S"
  shows "Min (insert a (insert d S)) = Min (insert (min d a) S)"
proof (cases "S = {}")
  case True
  then show ?thesis by (simp add: min.commute)
next
  case False
  with assms show ?thesis
    by (simp add: min.assoc min.commute min.left_commute)
qed

lemma inf_dist_python_loop_Fin:
  "\<forall>y\<in>set Y. length y = length x \<Longrightarrow>
   inf_dist_python_loop x Y (Fin a) = Inr (Fin (Min (insert a (metric_value x ` set Y))))"
proof (induction Y arbitrary: a)
  case Nil
  then show ?case by simp
next
  case (Cons y Ys)
  then have len: "length x = length y" and rest: "\<forall>z\<in>set Ys. length z = length x"
    by simp_all
  obtain d where d: "metric_python x y = Inr d"
    using metric_python_eq_length [OF len] by blast
  then have mv: "metric_value x y = d"
    by (simp add: metric_value_def)
  have "inf_dist_python_loop x (y # Ys) (Fin a) = inf_dist_python_loop x Ys (Fin (min d a))"
    using d by (simp add: min_def)
  also have "\<dots> = Inr (Fin (Min (insert (min d a) (metric_value x ` set Ys))))"
    using Cons.IH [OF rest] .
  also have "Min (insert (min d a) (metric_value x ` set Ys)) =
      Min (insert a (metric_value x ` set (y # Ys)))"
    using mv Min_insert_insert [of "metric_value x ` set Ys" a d] by simp
  finally show ?case .
qed

lemma inf_dist_python_nonempty:
  assumes "Y \<noteq> []" and "\<forall>y\<in>set Y. length y = length x"
  shows "inf_dist_python x Y = Inr (Fin (Min (metric_value x ` set Y)))"
proof -
  obtain y Ys where Y: "Y = y # Ys"
    using assms(1) by (cases Y) auto
  with assms(2) have len: "length x = length y" and rest: "\<forall>z\<in>set Ys. length z = length x"
    by simp_all
  obtain d where d: "metric_python x y = Inr d"
    using metric_python_eq_length [OF len] by blast
  then have mv: "metric_value x y = d"
    by (simp add: metric_value_def)
  have "inf_dist_python x Y = inf_dist_python_loop x Ys (Fin d)"
    using d by (simp add: inf_dist_python_def Y)
  also have "\<dots> = Inr (Fin (Min (insert d (metric_value x ` set Ys))))"
    using inf_dist_python_loop_Fin [OF rest] .
  finally show ?thesis
    using mv by (simp add: Y)
qed

subsection \<open>The two suprema\<close>

lemma metric_value_nonneg: "0 \<le> metric_value x y"
  by (auto simp: metric_value_def split: sum.splits dest: metric_python_nonneg)

lemma metric_value_self: "metric_value x x = 0"
  by (simp add: metric_value_def metric_python_self)

lemma inf_value_nonneg: "Y \<noteq> [] \<Longrightarrow> 0 \<le> inf_value x Y"
  by (simp add: inf_value_def metric_value_nonneg)

lemma inf_value_member: "x \<in> set Y \<Longrightarrow> inf_value x Y = 0"
proof -
  assume "x \<in> set Y"
  then have "0 \<in> metric_value x ` set Y"
    using metric_value_self [of x] by (metis imageI)
  moreover have "\<forall>d\<in>metric_value x ` set Y. 0 \<le> d"
    by (auto simp: metric_value_nonneg)
  ultimately show ?thesis
    unfolding inf_value_def by (intro Min_eqI) auto
qed

lemma Max_insert_insert:
  fixes a d :: real
  assumes "finite S"
  shows "Max (insert a (insert d S)) = Max (insert (max d a) S)"
proof (cases "S = {}")
  case True
  then show ?thesis by (simp add: max.commute)
next
  case False
  with assms show ?thesis
    by (simp add: max.assoc max.commute max.left_commute)
qed

lemma hausdorff_python_loop_Fin:
  assumes "B \<noteq> []"
  shows "\<forall>a\<in>set A. \<forall>b\<in>set B. length b = length a \<Longrightarrow>
   hausdorff_python_loop A B (Fin s) = Inr (Fin (Max (insert s ((\<lambda>a. inf_value a B) ` set A))))"
proof (induction A arbitrary: s)
  case Nil
  then show ?case by simp
next
  case (Cons a As)
  from Cons.prems have len: "\<forall>b\<in>set B. length b = length a"
    by simp
  from Cons.prems have rest: "\<forall>a\<in>set As. \<forall>b\<in>set B. length b = length a"
    by (meson list.set_intros(2))
  have inf1: "inf_dist_python a B = Inr (Fin (inf_value a B))"
    using inf_dist_python_nonempty [OF assms len] by (simp add: inf_value_def)
  have "hausdorff_python_loop (a # As) B (Fin s) =
      hausdorff_python_loop As B (Fin (max (inf_value a B) s))"
    using inf1 by (simp add: max_def)
  also have "\<dots> = Inr (Fin (Max (insert (max (inf_value a B) s) ((\<lambda>a. inf_value a B) ` set As))))"
    using Cons.IH [OF rest] .
  also have "Max (insert (max (inf_value a B) s) ((\<lambda>a. inf_value a B) ` set As)) =
      Max (insert s ((\<lambda>a. inf_value a B) ` set (a # As)))"
    using Max_insert_insert [of "(\<lambda>a. inf_value a B) ` set As" s "inf_value a B"] by simp
  finally show ?case .
qed

lemma py_max_Fin: "py_max (Fin a) (Fin b) = Fin (max a b)"
  by (simp add: py_max_def max_def)

lemma hausdorff_python_value:
  assumes "X \<noteq> []" and "Y \<noteq> []"
    and "\<forall>x\<in>set X. length x = d" and "\<forall>y\<in>set Y. length y = d"
  shows "hausdorff_python X Y = Inr (Fin (max (sup_value X Y) (sup_value Y X)))"
proof -
  have 1: "hausdorff_python_loop X Y (Fin (- 1)) = Inr (Fin (sup_value X Y))"
    unfolding sup_value_def using assms by (intro hausdorff_python_loop_Fin) auto
  have 2: "hausdorff_python_loop Y X (Fin (- 1)) = Inr (Fin (sup_value Y X))"
    unfolding sup_value_def using assms by (intro hausdorff_python_loop_Fin) auto
  show ?thesis
    by (simp add: hausdorff_python_def 1 2 py_max_Fin)
qed

lemma sup_value_nonneg: "A \<noteq> [] \<Longrightarrow> B \<noteq> [] \<Longrightarrow> 0 \<le> sup_value A B"
proof -
  assume A: "A \<noteq> []" and B: "B \<noteq> []"
  then obtain a where a: "a \<in> set A" by (cases A) auto
  have "inf_value a B \<le> sup_value A B"
    unfolding sup_value_def using a by (intro Max_ge) auto
  with inf_value_nonneg [OF B, of a] show ?thesis by linarith
qed

lemma sup_value_self: "A \<noteq> [] \<Longrightarrow> sup_value A A = 0"
proof -
  assume A: "A \<noteq> []"
  then obtain a where "a \<in> set A" by (cases A) auto
  then have "(\<lambda>a. inf_value a A) ` set A = {0}"
    by (auto simp: inf_value_member)
  then show ?thesis by (simp add: sup_value_def)
qed

lemma sqrt_300: "sqrt 300 = 10 * sqrt 3"
proof -
  have "sqrt 300 = sqrt (100 * 3)" by simp
  also have "\<dots> = sqrt 100 * sqrt 3" by (rule real_sqrt_mult)
  also have "sqrt 100 = 10" using real_sqrt_abs [of 10] by simp
  finally show ?thesis .
qed

lemma sqrt_3_less_3: "sqrt 3 < 3"
proof -
  have "sqrt 3 < sqrt 9" by (subst real_sqrt_less_iff) simp
  also have "sqrt 9 = 3" using real_sqrt_abs [of 3] by simp
  finally show ?thesis .
qed

lemma hausdorff_python_example:
  "hausdorff_python [[0, 0, 0], [10, 10, 10]] [[0, 0, 0]] = Inr (Fin 30)"
proof -
  have m1: "metric_python [0, 0, 0] [0, 0, 0] = Inr 0"
    by (simp add: metric_python_eq_length)
  have m2: "metric_python [10, 10, 10] [0, 0, 0] = Inr 30"
    by (simp add: metric_python_eq_length)
  have m3: "metric_python [0, 0, 0] [10, 10, 10] = Inr 30"
    by (simp add: metric_python_eq_length)
  show ?thesis
    by (simp add: hausdorff_python_def inf_dist_python_def m1 m2 m3 py_max_def)
qed

subsection \<open>What the metric computes\<close>

text \<open>
  Claim C1: for two points of the same dimension the metric returns the Euclidean
  distance \<open>sqrt (\<Sum>k. (x\<^sub>k - y\<^sub>k)\<^sup>2)\<close>. The code takes the square root of every
  squared difference and then sums (\<^verbatim>\<open>np.sqrt(ret).sum()\<close>), which is the sum of the
  absolute differences (lemma \<open>metric_python_eq_length\<close>). At \<open>x = [0,0,0]\<close>,
  \<open>y = [10,10,10]\<close> it returns 30, and the Euclidean distance is \<open>10 * sqrt 3\<close>.
\<close>

theorem metric_python_not_euclidean:
  "metric_python [0, 0, 0] [10, 10, 10] = Inr 30 \<and>
   euclidean_spec [0, 0, 0] [10, 10, 10] = 10 * sqrt 3 \<and>
   (30::real) \<noteq> 10 * sqrt 3"
proof -
  have a: "metric_python [0, 0, 0] [10, 10, 10] = Inr 30"
    by (simp add: metric_python_eq_length)
  have b: "euclidean_spec [0, 0, 0] [10, 10, 10] = 10 * sqrt 3"
    by (simp add: euclidean_spec_def sqrt_300)
  have c: "(30::real) \<noteq> 10 * sqrt 3"
    using sqrt_3_less_3 by simp
  from a b c show ?thesis by simp
qed

text \<open>
  Claim C2: \<open>hausdorff_python [[0,0,0],[10,10,10]] [[0,0,0]]\<close> is \<open>10 * sqrt 3\<close>.
  The code returns 30 there, through the same metric.
\<close>

theorem hausdorff_python_scenario_C:
  "hausdorff_python [[0, 0, 0], [10, 10, 10]] [[0, 0, 0]] = Inr (Fin 30) \<and>
   (30::real) \<noteq> 10 * sqrt 3"
  using hausdorff_python_example sqrt_3_less_3 by simp

subsection \<open>Dimension mismatch\<close>

text \<open>
  Claim C4: for every pair of points with \<open>len(x) \<noteq> len(y)\<close>, also when one of
  them has dimension 1, the metric fails with DimensionMismatch; so
  \<open>hausdorff([[0,0]], [[0,0,0]])\<close> fails with DimensionMismatch.

  The code has no dimension check of its own: the error is the one \<^verbatim>\<open>x-y\<close> raises,
  and \<^verbatim>\<open>x-y\<close> broadcasts a point of dimension 1 instead of raising. At \<open>x = [5]\<close>,
  \<open>y = [1,2,3]\<close> the metric returns 9.
\<close>

theorem metric_python_broadcast_counterexample:
  "length [5 :: real] \<noteq> length [1, 2, 3 :: real] \<and> metric_python [5] [1, 2, 3] = Inr 9"
  by (simp add: metric_python_def np_subtract_def np_sqrt_imul_self np_sum_def)

text \<open>
  Claim C4 as amended: the metric fails with DimensionMismatch exactly when the two
  dimensions differ and neither of them is 1; \<open>hausdorff([[0,0]], [[0,0,0]])\<close> fails
  with DimensionMismatch.
\<close>

theorem metric_python_mismatch:
  "(metric_python x y = Inl DimensionMismatch \<longleftrightarrow>
      length x \<noteq> length y \<and> length x \<noteq> 1 \<and> length y \<noteq> 1) \<and>
   hausdorff_python [[0, 0]] [[0, 0, 0]] = Inl DimensionMismatch"
proof -
  have "metric_python [0, 0] [0, 0, 0] = Inl DimensionMismatch"
    by (simp add: metric_python_def np_subtract_def)
  then have "hausdorff_python [[0, 0]] [[0, 0, 0]] = Inl DimensionMismatch"
    by (simp add: hausdorff_python_def inf_dist_python_def)
  then show ?thesis
    by (simp add: metric_python_def np_subtract_def)
qed

theorem metric_python_mismatch_witness:
  "metric_python [0, 0] [0, 0, 0] = Inl DimensionMismatch \<and>
   hausdorff_python [[0, 0]] [[0, 0, 0]] = Inl DimensionMismatch"
  using metric_python_mismatch [of "[0, 0]" "[0, 0, 0]"] by simp

subsection \<open>Empty point sets\<close>

lemma inf_dist_python_empty: "inf_dist_python x [] = Inr PInf"
  by (simp add: inf_dist_python_def)

lemma hausdorff_python_loop_empty_PInf: "hausdorff_python_loop A [] PInf = Inr PInf"
  by (induction A) (simp_all add: inf_dist_python_empty)

lemma hausdorff_python_loop_empty:
  "A \<noteq> [] \<Longrightarrow> hausdorff_python_loop A [] s = Inr PInf"
  by (cases A; cases s) (simp_all add: inf_dist_python_empty hausdorff_python_loop_empty_PInf)

lemma hausdorff_python_empty_left: "Y \<noteq> [] \<Longrightarrow> hausdorff_python [] Y = Inr PInf"
  by (simp add: hausdorff_python_def hausdorff_python_loop_empty py_max_def)

lemma hausdorff_python_empty_right: "X \<noteq> [] \<Longrightarrow> hausdorff_python X [] = Inr PInf"
  by (simp add: hausdorff_python_def hausdorff_python_loop_empty py_max_def)

lemma hausdorff_python_empty_both: "hausdorff_python [] [] = Inr (Fin (- 1))"
  by (simp add: hausdorff_python_def py_max_def)

text \<open>
  Claim C3: when at least one of the two point sets is empty, the Hausdorff distance
  fails with an EmptySet error; in particular \<open>hausdorff([], [[0,0,0]])\<close> does.

  No statement of the code raises: an empty loop leaves the initial value of its
  running minimum or supremum in place. \<open>hausdorff_python [] [[0,0,0]]\<close> returns
  \<^verbatim>\<open>inf\<close>.
\<close>

theorem hausdorff_python_empty_counterexample:
  "hausdorff_python [] [[0, 0, 0]] = Inr PInf \<and> hausdorff_python [] [[0, 0, 0]] \<noteq> Inl EmptySet"
  by (simp add: hausdorff_python_empty_left)

text \<open>
  Claim C3 as amended: when at least one of the two point sets is empty, the
  Hausdorff distance does not fail; it returns a value, and
  \<open>hausdorff([], [[0,0,0]])\<close> returns \<^verbatim>\<open>inf\<close>.
\<close>

theorem hausdorff_python_empty_returns:
  assumes "X = [] \<or> Y = []"
  shows "(\<exists>v. hausdorff_python X Y = Inr v) \<and> hausdorff_python [] [[0, 0, 0]] = Inr PInf"
proof -
  have "\<exists>v. hausdorff_python X Y = Inr v"
  proof (cases "X = []")
    case True
    then show ?thesis
      by (cases "Y = []") (simp_all add: hausdorff_python_empty_both hausdorff_python_empty_left)
  next
    case False
    with assms show ?thesis
      by (simp add: hausdorff_python_empty_right)
  qed
  then show ?thesis
    by (simp add: hausdorff_python_empty_left)
qed

theorem hausdorff_python_empty_returns_witness:
  "([] = [] \<or> [[0, 0, 0]] = ([] :: real list list)) \<and>
   (\<exists>v. hausdorff_python [] [[0, 0, 0]] = Inr v) \<and> hausdorff_python [] [[0, 0, 0]] = Inr PInf"
proof -
  have h: "([] :: real list list) = [] \<or> [[0, 0, 0]] = ([] :: real list list)" by simp
  show ?thesis
    using h hausdorff_python_empty_returns [OF h] by simp
qed

text \<open>
  Claim C10: with both point sets empty \<open>hausdorff_python\<close> returns \<^verbatim>\<open>-1.0\<close>, the
  initial value of both suprema, and raises nothing; with exactly one of them empty
  it returns \<^verbatim>\<open>inf\<close>.
\<close>

theorem hausdorff_python_sentinels:
  "hausdorff_python [] [] = Inr (Fin (- 1)) \<and>
   (X \<noteq> [] \<longrightarrow> hausdorff_python X [] = Inr PInf \<and> hausdorff_python [] X = Inr PInf)"
  by (simp add: hausdorff_python_empty_both hausdorff_python_empty_left
      hausdorff_python_empty_right)

theorem hausdorff_python_sentinels_witness:
  "hausdorff_python [] [] = Inr (Fin (- 1)) \<and> [[1, 2, 3]] \<noteq> ([] :: real list list) \<and>
   hausdorff_python [[1, 2, 3]] [] = Inr PInf \<and> hausdorff_python [] [[1, 2, 3]] = Inr PInf"
  using hausdorff_python_sentinels [of "[[1, 2, 3]]"] by simp

subsection \<open>The nearest-neighbour distance\<close>

text \<open>
  Claim C6: for a point \<open>x\<close> and a non-empty point set \<open>Y\<close> of the same dimension,
  \<open>inf_dist_python x Y\<close> returns the minimum over the rows \<open>y\<close> of \<open>Y\<close> of what the
  metric returns on \<open>x\<close> and \<open>y\<close>. It is a value, not an index. The linear scan
  keeps the minimum so far: that is lemma \<open>inf_dist_python_loop_Fin\<close>.
\<close>

theorem inf_dist_python_is_min:
  assumes "Y \<noteq> []" and "\<forall>y\<in>set Y. length y = length x"
  shows "inf_dist_python x Y = Inr (Fin (Min (metric_value x ` set Y))) \<and>
         (\<forall>y\<in>set Y. metric_python x y = Inr (metric_value x y))"
proof -
  have "metric_python x y = Inr (metric_value x y)" if "y \<in> set Y" for y
  proof -
    from that assms(2) have "length x = length y" by simp
    then show ?thesis
      by (simp add: metric_value_def metric_python_eq_length)
  qed
  with inf_dist_python_nonempty [OF assms] show ?thesis by simp
qed

theorem inf_dist_python_is_min_witness:
  "inf_dist_python [1, 1, 1] [[0, 0, 0], [1, 2, 3]] = Inr (Fin 3) \<and>
   metric_python [1, 1, 1] [0, 0, 0] = Inr 3 \<and> metric_python [1, 1, 1] [1, 2, 3] = Inr 3"
proof -
  have h1: "[[0, 0, 0], [1, 2, 3]] \<noteq> ([] :: real list list)" by simp
  have h2: "\<forall>y\<in>set [[0, 0, 0], [1, 2, 3]]. length y = length [1, 1, 1 :: real]" by simp
  have m: "metric_value [1, 1, 1] [0, 0, 0] = 3" "metric_value [1, 1, 1] [1, 2, 3] = 3"
    by (simp_all add: metric_value_def metric_python_eq_length)
  show ?thesis
    using inf_dist_python_is_min [OF h1 h2] by (simp add: m)
qed

subsection \<open>Symmetry, self-distance and sign\<close>

text \<open>
  Claim C5: for non-empty point sets \<open>X\<close>, \<open>Y\<close> of the same dimension,
  \<open>hausdorff(X, Y) = hausdorff(Y, X)\<close>.
\<close>

theorem hausdorff_python_symmetric:
  assumes "X \<noteq> []" and "Y \<noteq> []"
    and "\<forall>x\<in>set X. length x = d" and "\<forall>y\<in>set Y. length y = d"
  shows "hausdorff_python X Y = hausdorff_python Y X"
  using hausdorff_python_value [OF assms] hausdorff_python_value [OF assms(2,1,4,3)]
  by (simp add: max.commute)

theorem hausdorff_python_symmetric_witness:
  "hausdorff_python [[0, 0, 0], [10, 10, 10]] [[0, 0, 0]] =
   hausdorff_python [[0, 0, 0]] [[0, 0, 0], [10, 10, 10]]"
proof -
  have h1: "[[0, 0, 0], [10, 10, 10]] \<noteq> ([] :: real list list)" by simp
  have h2: "[[0, 0, 0]] \<noteq> ([] :: real list list)" by simp
  have h3: "\<forall>x\<in>set [[0, 0, 0], [10, 10, 10 :: real]]. length x = 3" by simp
  have h4: "\<forall>y\<in>set [[0, 0, 0 :: real]]. length y = 3" by simp
  show ?thesis
    by (rule hausdorff_python_symmetric [OF h1 h2 h3 h4])
qed

text \<open>
  Claim C8: for a non-empty point set \<open>X\<close>, \<open>hausdorff(X, X) = 0\<close>; and for non-empty
  \<open>X\<close>, \<open>Y\<close> of the same dimension \<open>hausdorff(X, Y)\<close> is a number \<open>\<ge> 0\<close>. A point
  set is a two-dimensional array, so all its rows have one length \<open>d\<close>.
\<close>

theorem hausdorff_python_self_nonneg:
  "(X \<noteq> [] \<and> (\<forall>x\<in>set X. length x = d) \<longrightarrow> hausdorff_python X X = Inr (Fin 0)) \<and>
   (X \<noteq> [] \<and> Y \<noteq> [] \<and> (\<forall>x\<in>set X. length x = d) \<and> (\<forall>y\<in>set Y. length y = d) \<longrightarrow>
      (\<exists>r. hausdorff_python X Y = Inr (Fin r) \<and> 0 \<le> r))"
proof (intro conjI impI)
  assume a: "X \<noteq> [] \<and> (\<forall>x\<in>set X. length x = d)"
  then have "hausdorff_python X X = Inr (Fin (max (sup_value X X) (sup_value X X)))"
    by (intro hausdorff_python_value [where d = d]) simp_all
  with a show "hausdorff_python X X = Inr (Fin 0)"
    by (simp add: sup_value_self)
next
  assume a: "X \<noteq> [] \<and> Y \<noteq> [] \<and> (\<forall>x\<in>set X. length x = d) \<and> (\<forall>y\<in>set Y. length y = d)"
  then have "hausdorff_python X Y = Inr (Fin (max (sup_value X Y) (sup_value Y X)))"
    by (intro hausdorff_python_value [where d = d]) simp_all
  moreover have "0 \<le> max (sup_value X Y) (sup_value Y X)"
    using a sup_value_nonneg [of X Y] by simp
  ultimately show "\<exists>r. hausdorff_python X Y = Inr (Fin r) \<and> 0 \<le> r"
    by simp
qed

theorem hausdorff_python_self_nonneg_witness:
  "hausdorff_python [[0, 0, 0], [10, 10, 10]] [[0, 0, 0], [10, 10, 10]] = Inr (Fin 0) \<and>
   (\<exists>r. hausdorff_python [[0, 0, 0], [10, 10, 10]] [[0, 0, 0]] = Inr (Fin r) \<and> 0 \<le> r)"
  using hausdorff_python_self_nonneg [of "[[0, 0, 0], [10, 10, 10]]" 3 "[[0, 0, 0]]"]
  by simp

subsection \<open>The caller's arrays\<close>

text \<open>
  On arrays in memory the metric allocates two arrays, the difference and the square
  roots, after the buffers that exist; the in-place multiplication writes into the
  first of them, never into \<open>x\<close> or \<open>y\<close>.
\<close>

lemma map2_self: "map2 f xs xs = map (\<lambda>a. f a a) xs"
  by (induction xs) simp_all

lemma metric_python_st_unfold:
  "metric_python_st mem x y =
     (case np_subtract (read_array mem x) (read_array mem y) of
        Inl e \<Rightarrow> (mem, Inl e)
      | Inr d \<Rightarrow> (mem @ [np_imul_self d, np_sqrt (np_imul_self d)],
                  Inr (np_sum (np_sqrt (np_imul_self d)))))"
  by (simp add: metric_python_st_def st_subtract_def new_array_def st_imul_def write_array_def
      read_array_def st_sqrt_def st_sum_def map2_self np_imul_self_def np_sqrt_def nth_append
      split: sum.splits)

lemma metric_python_st_result:
  "snd (metric_python_st mem x y) = metric_python (read_array mem x) (read_array mem y)"
  by (simp add: metric_python_st_unfold metric_python_def split: sum.splits)

lemma metric_python_st_prefix: "prefix mem (fst (metric_python_st mem x y))"
  by (simp add: metric_python_st_unfold split: sum.splits)

lemma read_array_prefix:
  assumes "prefix mem mem'" and "base v < length mem"
  shows "read_array mem' v = read_array mem v"
proof -
  from assms(1) obtain zs where "mem' = mem @ zs"
    by (auto simp: prefix_def)
  with assms(2) show ?thesis
    by (simp add: read_array_def nth_append)
qed

lemma inf_dist_python_st_loop_sound:
  assumes "base x < length mem" and "base2 Y < length mem"
  shows "prefix mem (fst (inf_dist_python_st_loop mem x Y is i)) \<and>
         snd (inf_dist_python_st_loop mem x Y is i) =
           inf_dist_python_loop (read_array mem x)
             (map (\<lambda>k. read_array mem (row_view Y k)) is) i"
  using assms
proof (induction "is" arbitrary: mem i)
  case Nil
  then show ?case by simp
next
  case (Cons k ks)
  obtain mem' r where step: "metric_python_st mem x (row_view Y k) = (mem', r)"
    by (cases "metric_python_st mem x (row_view Y k)")
  have pre: "prefix mem mem'"
    using metric_python_st_prefix [of mem x "row_view Y k"] step by simp
  have res: "r = metric_python (read_array mem x) (read_array mem (row_view Y k))"
    using metric_python_st_result [of mem x "row_view Y k"] step by simp
  show ?case
  proof (cases r)
    case (Inl e)
    then show ?thesis
      using step pre res by simp
  next
    case (Inr d)
    let ?i = "if flt_less (Fin d) i then Fin d else i"
    have len: "length mem \<le> length mem'"
      using pre by (simp add: prefix_length_le)
    with Cons.prems have valid: "base x < length mem'" "base2 Y < length mem'"
      by simp_all
    have rd_x: "read_array mem' x = read_array mem x"
      using read_array_prefix [OF pre] Cons.prems(1) by simp
    have rd_Y: "read_array mem' (row_view Y j) = read_array mem (row_view Y j)" for j
      using read_array_prefix [OF pre, of "row_view Y j"] Cons.prems(2)
      by (simp add: row_view_def)
    have IH: "prefix mem' (fst (inf_dist_python_st_loop mem' x Y ks ?i)) \<and>
         snd (inf_dist_python_st_loop mem' x Y ks ?i) =
           inf_dist_python_loop (read_array mem' x)
             (map (\<lambda>k. read_array mem' (row_view Y k)) ks) ?i"
      by (rule Cons.IH [OF valid])
    have unfold: "inf_dist_python_st_loop mem x Y (k # ks) i =
        inf_dist_python_st_loop mem' x Y ks ?i"
      using step Inr by simp
    have "prefix mem (fst (inf_dist_python_st_loop mem' x Y ks ?i))"
      using pre IH by (meson prefix_order.trans)
    moreover have "snd (inf_dist_python_st_loop mem' x Y ks ?i) =
        inf_dist_python_loop (read_array mem x)
          (map (\<lambda>k. read_array mem (row_view Y k)) (k # ks)) i"
    proof -
      have "metric_python (read_array mem x) (read_array mem (row_view Y k)) = Inr d"
        using res Inr by simp
      then show ?thesis
        using IH by (simp add: rd_x rd_Y)
    qed
    ultimately show ?thesis
      by (simp only: unfold)
  qed
qed

lemma inf_dist_python_st_sound:
  assumes "base x < length mem" and "base2 Y < length mem"
  shows "prefix mem (fst (inf_dist_python_st mem x Y)) \<and>
         snd (inf_dist_python_st mem x Y) = inf_dist_python (read_array mem x) (rows_of mem Y)"
  using inf_dist_python_st_loop_sound [OF assms, of "[0..<nrows Y]" PInf]
  by (simp add: inf_dist_python_st_def inf_dist_python_def rows_of_def)

lemma rows_of_prefix:
  assumes "prefix mem mem'" and "base2 X < length mem"
  shows "rows_of mem' X = rows_of mem X"
  using read_array_prefix [OF assms(1)] assms(2)
  by (simp add: rows_of_def row_view_def)

lemma hausdorff_python_st_loop_sound:
  assumes "base2 A < length mem" and "base2 B < length mem"
  shows "prefix mem (fst (hausdorff_python_st_loop mem A B is s)) \<and>
         snd (hausdorff_python_st_loop mem A B is s) =
           hausdorff_python_loop (map (\<lambda>k. read_array mem (row_view A k)) is)
             (rows_of mem B) s"
  using assms
proof (induction "is" arbitrary: mem s)
  case Nil
  then show ?case by simp
next
  case (Cons k ks)
  obtain mem' r where step: "inf_dist_python_st mem (row_view A k) B = (mem', r)"
    by (cases "inf_dist_python_st mem (row_view A k) B")
  have valid_row: "base (row_view A k) < length mem"
    using Cons.prems(1) by (simp add: row_view_def)
  have snd_step: "prefix mem mem' \<and>
      r = inf_dist_python (read_array mem (row_view A k)) (rows_of mem B)"
    using inf_dist_python_st_sound [OF valid_row Cons.prems(2)] step by simp
  then have pre: "prefix mem mem'" by simp
  show ?case
  proof (cases r)
    case (Inl e)
    then show ?thesis
      using step snd_step by simp
  next
    case (Inr inf1)
    let ?s = "if flt_less s inf1 then inf1 else s"
    have len: "length mem \<le> length mem'"
      using pre by (simp add: prefix_length_le)
    with Cons.prems have valid: "base2 A < length mem'" "base2 B < length mem'"
      by simp_all
    have rd_A: "read_array mem' (row_view A j) = read_array mem (row_view A j)" for j
      using read_array_prefix [OF pre, of "row_view A j"] Cons.prems(1)
      by (simp add: row_view_def)
    have rd_B: "rows_of mem' B = rows_of mem B"
      using rows_of_prefix [OF pre Cons.prems(2)] .
    have IH: "prefix mem' (fst (hausdorff_python_st_loop mem' A B ks ?s)) \<and>
         snd (hausdorff_python_st_loop mem' A B ks ?s) =
           hausdorff_python_loop (map (\<lambda>k. read_array mem' (row_view A k)) ks)
             (rows_of mem' B) ?s"
      by (rule Cons.IH [OF valid])
    have unfold: "hausdorff_python_st_loop mem A B (k # ks) s =
        hausdorff_python_st_loop mem' A B ks ?s"
      using step Inr by simp
    have "prefix mem (fst (hausdorff_python_st_loop mem' A B ks ?s))"
      using pre IH by (meson prefix_order.trans)
    moreover have "snd (hausdorff_python_st_loop mem' A B ks ?s) =
        hausdorff_python_loop (map (\<lambda>k. read_array mem (row_view A k)) (k # ks))
          (rows_of mem B) s"
    proof -
      have "inf_dist_python (read_array mem (row_view A k)) (rows_of mem B) = Inr inf1"
        using snd_step Inr by simp
      then show ?thesis
        using IH by (simp add: rd_A rd_B)
    qed
    ultimately show ?thesis
      by (simp only: unfold)
  qed
qed

lemma hausdorff_python_st_sound:
  assumes "base2 X < length mem" and "base2 Y < length mem"
  shows "prefix mem (fst (hausdorff_python_st mem X Y)) \<and>
         snd (hausdorff_python_st mem X Y) = hausdorff_python (rows_of mem X) (rows_of mem Y)"
proof -
  obtain mem1 r1 where l1:
    "hausdorff_python_st_loop mem X Y [0..<nrows X] (Fin (- 1)) = (mem1, r1)"
    by (cases "hausdorff_python_st_loop mem X Y [0..<nrows X] (Fin (- 1))")
  have s1: "prefix mem mem1 \<and> r1 = hausdorff_python_loop (rows_of mem X) (rows_of mem Y) (Fin (- 1))"
    using hausdorff_python_st_loop_sound [OF assms, of "[0..<nrows X]" "Fin (- 1)"] l1
    by (simp add: rows_of_def)
  then have pre1: "prefix mem mem1" by simp
  then have valid1: "base2 Y < length mem1" "base2 X < length mem1"
    using assms prefix_length_le [OF pre1] by simp_all
  obtain mem2 r2 where l2:
    "hausdorff_python_st_loop mem1 Y X [0..<nrows Y] (Fin (- 1)) = (mem2, r2)"
    by (cases "hausdorff_python_st_loop mem1 Y X [0..<nrows Y] (Fin (- 1))")
  have "prefix mem1 mem2 \<and> r2 = hausdorff_python_loop (rows_of mem1 Y) (rows_of mem1 X) (Fin (- 1))"
    using hausdorff_python_st_loop_sound [OF valid1, of "[0..<nrows Y]" "Fin (- 1)"] l2
    by (simp add: rows_of_def)
  then have s2: "prefix mem1 mem2 \<and> r2 = hausdorff_python_loop (rows_of mem Y) (rows_of mem X) (Fin (- 1))"
    using rows_of_prefix [OF pre1] assms by simp
  then have pre2: "prefix mem mem2"
    using pre1 by (meson prefix_order.trans)
  show ?thesis
  proof (cases r1)
    case (Inl e)
    then show ?thesis
      using l1 s1 by (simp add: hausdorff_python_st_def hausdorff_python_def)
  next
    case r1_ok: (Inr sup1)
    show ?thesis
    proof (cases r2)
      case (Inl e)
      then show ?thesis
        using l1 l2 s1 s2 r1_ok pre2
        by (simp add: hausdorff_python_st_def hausdorff_python_def split: sum.splits)
    next
      case (Inr sup2)
      then show ?thesis
        using l1 l2 s1 s2 r1_ok pre2
        by (simp add: hausdorff_python_st_def hausdorff_python_def split: sum.splits)
    qed
  qed
qed

text \<open>
  Claim C9: a call of the Hausdorff distance leaves \<open>X\<close> and \<open>Y\<close> unchanged, in
  spite of the in-place \<^verbatim>\<open>ret *= ret\<close> of the metric. For arrays \<open>X\<close> and \<open>Y\<close> that
  exist in memory, the rows of both are the same after the call as before, whether
  it returns or raises; every buffer that existed is unchanged (the memory before is
  a prefix of the memory after); and the result is that of \<open>hausdorff_python\<close> on
  the contents.
\<close>

theorem hausdorff_python_reads_only:
  assumes "base2 X < length mem" and "base2 Y < length mem"
  shows "rows_of (fst (hausdorff_python_st mem X Y)) X = rows_of mem X \<and>
         rows_of (fst (hausdorff_python_st mem X Y)) Y = rows_of mem Y \<and>
         prefix mem (fst (hausdorff_python_st mem X Y)) \<and>
         snd (hausdorff_python_st mem X Y) = hausdorff_python (rows_of mem X) (rows_of mem Y)"
  using hausdorff_python_st_sound [OF assms] rows_of_prefix assms by simp

theorem hausdorff_python_reads_only_witness:
  "rows_of (fst (hausdorff_python_st [[0, 0, 0, 10, 10, 10], [0, 0, 0]]
      \<lparr>base2 = 0, nrows = 2, ncols = 3\<rparr> \<lparr>base2 = 1, nrows = 1, ncols = 3\<rparr>))
      \<lparr>base2 = 0, nrows = 2, ncols = 3\<rparr> = [[0, 0, 0], [10, 10, 10]] \<and>
   rows_of (fst (hausdorff_python_st [[0, 0, 0, 10, 10, 10], [0, 0, 0]]
      \<lparr>base2 = 0, nrows = 2, ncols = 3\<rparr> \<lparr>base2 = 1, nrows = 1, ncols = 3\<rparr>))
      \<lparr>base2 = 1, nrows = 1, ncols = 3\<rparr> = [[0, 0, 0]] \<and>
   snd (hausdorff_python_st [[0, 0, 0, 10, 10, 10], [0, 0, 0]]
      \<lparr>base2 = 0, nrows = 2, ncols = 3\<rparr> \<lparr>base2 = 1, nrows = 1, ncols = 3\<rparr>) = Inr (Fin 30)"
proof -
  let ?mem = "[[0, 0, 0, 10, 10, 10], [0, 0, 0]] :: memory"
  let ?X = "\<lparr>base2 = 0, nrows = 2, ncols = 3\<rparr>"
  let ?Y = "\<lparr>base2 = 1, nrows = 1, ncols = 3\<rparr>"
  have h1: "base2 ?X < length ?mem" by simp
  have h2: "base2 ?Y < length ?mem" by simp
  have "[0..<2] = [0, Suc 0]"
    by (simp add: upt_rec)
  then have rX: "rows_of ?mem ?X = [[0, 0, 0], [10, 10, 10]]"
    by (simp add: rows_of_def row_view_def read_array_def)
  have rY: "rows_of ?mem ?Y = [[0, 0, 0]]"
    by (simp add: rows_of_def row_view_def read_array_def)
  show ?thesis
    using hausdorff_python_reads_only [OF h1 h2]
    by (simp only: rX rY hausdorff_python_example)
qed

end
